theory Spec2Isabelle
  imports Complex_Main "HOL-Library.Word"
begin

section \<open>Reflow oven firmware: data model\<close>

text \<open>
  Shallow embedding of \<^verbatim>\<open>Firmware/src/main.cpp\<close>. The sketch runs on an AVR Arduino
  (the SPI pins 11, 12, 13 of the header comment are those of the ATmega328): \<^verbatim>\<open>int\<close>
  and \<^verbatim>\<open>unsigned int\<close> are 16 bits wide, \<^verbatim>\<open>unsigned long\<close> is 32 bits wide. An
  operand of type \<^verbatim>\<open>uint16_t\<close> is therefore promoted to \<^verbatim>\<open>unsigned int\<close>, and
  arithmetic on two such operands, or on one and an \<^verbatim>\<open>int\<close> constant, is arithmetic
  modulo \<open>2 ^ 16\<close>.
\<close>

type_synonym u8 = "8 word"
type_synonym u16 = "16 word"
type_synonym u32 = "32 word"

text \<open>\<^verbatim>\<open>#define MAX_ENTIES 10\<close>\<close>

definition MAX_ENTIES :: nat where
  "MAX_ENTIES = 10"

text \<open>\<^verbatim>\<open>struct Config\<close>: two arrays of \<^verbatim>\<open>MAX_ENTIES\<close> cells and the number of cells in use.\<close>

record Config =
  time :: "u16 list"
  temperature :: "u16 list"
  number_of_entries :: u8

text \<open>The global \<^verbatim>\<open>Config config;\<close> has static storage: every cell starts at zero.\<close>

definition config0 :: Config where
  "config0 = \<lparr>time = replicate MAX_ENTIES 0, temperature = replicate MAX_ENTIES 0,
     number_of_entries = 0\<rparr>"

text \<open>
  A configuration whose arrays have their declared size and whose count stays inside
  them; outside it the C program reads past the arrays.
\<close>

definition wf_config :: "Config \<Rightarrow> bool" where
  "wf_config cfg =
     (length (time cfg) = MAX_ENTIES \<and> length (temperature cfg) = MAX_ENTIES \<and>
      unat (number_of_entries cfg) \<le> MAX_ENTIES)"

subsection \<open>Values of type float\<close>

text \<open>
  A \<^verbatim>\<open>float\<close> is a 32-bit binary floating point number: a finite number, an infinity
  or a NaN. A finite value is the rational number it stands for. Division,
  multiplication and addition round the exact result to the format: 24 significant
  bits, to the nearest value, to the even one of two nearest; below \<open>2 ^ -126\<close> the
  values are the multiples of \<open>2 ^ -149\<close>, and a result that rounds to \<open>2 ^ 128\<close> or
  beyond is an infinity. Every \<^verbatim>\<open>uint16_t\<close> converts to \<^verbatim>\<open>float\<close> without rounding.
\<close>

datatype fl = NaN | NInf | Fin rat | PInf

definition fl_of_u16 :: "u16 \<Rightarrow> fl" where
  "fl_of_u16 w = Fin (of_int (uint w))"

definition inf_of_sign :: "rat \<Rightarrow> fl" where
  "inf_of_sign s = (if s = 0 then NaN else if 0 < s then PInf else NInf)"

text \<open>The quotient of two integers, the second positive, rounded to the nearest
  integer, to the even one at a tie.\<close>

definition rne_div :: "int \<Rightarrow> int \<Rightarrow> int" where
  "rne_div n d =
     (let f = n div d; r = 2 * (n mod d)
      in if r < d then f else if d < r then f + 1 else if even f then f else f + 1)"

text \<open>The number of binary digits of a positive integer.\<close>

function bit_length :: "int \<Rightarrow> nat" where
  "bit_length n = (if n \<le> 0 then 0 else Suc (bit_length (n div 2)))"
  by pat_completeness auto
termination
proof (relation "measure nat")
  show "wf (measure nat)" by simp
  show "(n div 2, n) \<in> measure nat" if "\<not> n \<le> 0" for n :: int
    using that by simp
qed

declare bit_length.simps [simp del]

text \<open>
  Rounding the rational \<open>n / d\<close> to the format. Its magnitude lies between \<open>2 ^ e\<close>
  and \<open>2 ^ (e + 1)\<close>, where \<open>e\<close> is \<open>k\<close> or \<open>k - 1\<close> for the difference \<open>k\<close> of the
  digit counts of \<open>n\<close> and \<open>d\<close>. The last place kept is worth \<open>2 ^ p\<close>, and the result
  is \<open>m\<close> times that.
\<close>

definition round_f32 :: "rat \<Rightarrow> fl" where
  "round_f32 q =
     (case quotient_of q of (n, d) \<Rightarrow>
        let k = int (bit_length \<bar>n\<bar>) - int (bit_length d);
            e = (if d * 2 ^ nat k \<le> \<bar>n\<bar> * 2 ^ nat (- k) then k else k - 1);
            p = max (e - 23) (- 149);
            m = rne_div (\<bar>n\<bar> * 2 ^ nat (- p)) (d * 2 ^ nat p)
        in if 2 ^ 128 \<le> m * 2 ^ nat p then inf_of_sign q
           else Fin (of_int (sgn n * m * 2 ^ nat p) / of_int (2 ^ nat (- p))))"

fun fdiv :: "fl \<Rightarrow> fl \<Rightarrow> fl" where
  "fdiv (Fin a) (Fin b) = (if b = 0 then inf_of_sign a else round_f32 (a / b))"
| "fdiv (Fin a) PInf = Fin 0"
| "fdiv (Fin a) NInf = Fin 0"
| "fdiv PInf (Fin b) = (if 0 \<le> b then PInf else NInf)"
| "fdiv NInf (Fin b) = (if 0 \<le> b then NInf else PInf)"
| "fdiv _ _ = NaN"

fun fmul :: "fl \<Rightarrow> fl \<Rightarrow> fl" where
  "fmul (Fin a) (Fin b) = round_f32 (a * b)"
| "fmul (Fin a) PInf = inf_of_sign a"
| "fmul (Fin a) NInf = inf_of_sign (- a)"
| "fmul PInf (Fin b) = inf_of_sign b"
| "fmul NInf (Fin b) = inf_of_sign (- b)"
| "fmul PInf PInf = PInf"
| "fmul NInf NInf = PInf"
| "fmul PInf NInf = NInf"
| "fmul NInf PInf = NInf"
| "fmul _ _ = NaN"

fun fadd :: "fl \<Rightarrow> fl \<Rightarrow> fl" where
  "fadd (Fin a) (Fin b) = round_f32 (a + b)"
| "fadd (Fin a) PInf = PInf"
| "fadd (Fin a) NInf = NInf"
| "fadd PInf (Fin b) = PInf"
| "fadd NInf (Fin b) = NInf"
| "fadd PInf PInf = PInf"
| "fadd NInf NInf = NInf"
| "fadd _ _ = NaN"

text \<open>The comparison \<^verbatim>\<open><\<close>: false as soon as one side is a NaN.\<close>

fun flt :: "fl \<Rightarrow> fl \<Rightarrow> bool" where
  "flt (Fin a) (Fin b) = (a < b)"
| "flt (Fin a) PInf = True"
| "flt NInf (Fin b) = True"
| "flt NInf PInf = True"
| "flt _ _ = False"

section \<open>The ramp computations of \<^verbatim>\<open>loop\<close>\<close>

text \<open>
  Line 132: \<^verbatim>\<open>unsigned long nextSampleTime = millis() + 1000;\<close>
\<close>

definition firstSampleTime :: "u32 \<Rightarrow> u32" where
  "firstSampleTime now = now + 1000"

text \<open>
  Line 133: \<^verbatim>\<open>unsigned long finishHeatingPhaseTime = millis() + config.time[heatingPhase] * 1000;\<close>
  The product has type \<^verbatim>\<open>unsigned int\<close> and is widened for the sum only afterwards.
\<close>

definition phaseMillis :: "u16 \<Rightarrow> u16" where
  "phaseMillis d = d * 1000"

definition finishHeatingPhaseTime :: "u32 \<Rightarrow> u16 \<Rightarrow> u32" where
  "finishHeatingPhaseTime now d = now + ucast (phaseMillis d)"

text \<open>
  Lines 134 to 137: \<^verbatim>\<open>temperatureOffset\<close> is 25 in the first phase and the target of
  the phase before in every other one.
\<close>

definition temperatureOffset :: "Config \<Rightarrow> nat \<Rightarrow> u16" where
  "temperatureOffset cfg heatingPhase =
     (if heatingPhase \<noteq> 0 then temperature cfg ! (heatingPhase - 1) else 25)"

text \<open>
  Line 150: \<^verbatim>\<open>(float)(config.temperature[heatingPhase] - temperatureOffset) / (float)(config.time[heatingPhase])\<close>.
  The difference is taken on \<^verbatim>\<open>unsigned int\<close>, before the conversion.
\<close>

definition gain :: "u16 \<Rightarrow> u16 \<Rightarrow> u16 \<Rightarrow> fl" where
  "gain target offset duration = fdiv (fl_of_u16 (target - offset)) (fl_of_u16 duration)"

text \<open>Line 153: \<^verbatim>\<open>gain * timeExpiredSincePhaseStart + temperatureOffset\<close>.\<close>

definition setPoint :: "fl \<Rightarrow> u16 \<Rightarrow> u16 \<Rightarrow> fl" where
  "setPoint g elapsed offset = fadd (fmul g (fl_of_u16 elapsed)) (fl_of_u16 offset)"

text \<open>The interpolator as one function of start, target, duration and elapsed seconds.\<close>

definition setpoint_of :: "u16 \<Rightarrow> u16 \<Rightarrow> u16 \<Rightarrow> u16 \<Rightarrow> fl" where
  "setpoint_of start target duration elapsed =
     setPoint (gain target start duration) elapsed start"

section \<open>The environment and what the program does to it\<close>

text \<open>
  The program reads three things from outside: the clock (\<^verbatim>\<open>millis()\<close>), the button
  (\<^verbatim>\<open>digitalRead(buttonInput)\<close>, true for HIGH, which is the released button under
  \<^verbatim>\<open>INPUT_PULLUP\<close>) and the thermocouple (\<^verbatim>\<open>thermocouple.readCelsius()\<close>). Each is a
  list: what its successive calls return, in call order. A call on an empty list is a
  program that has not got further yet (\<open>Pending\<close>).
\<close>

type_synonym inputs = "u32 list \<times> bool list \<times> fl list"

text \<open>
  What the program does, in order: the texts sent to the display, the entry into the
  body of the \<^verbatim>\<open>for\<close> loop with \<^verbatim>\<open>heatingPhase = i\<close> (where \<^verbatim>\<open>i + 1\<close> goes to the serial
  port), a thermocouple read, the sample line on the serial port (time, temperature,
  gain, set point) and a write to the relay pin (true for HIGH). The calls of
  \<^verbatim>\<open>delay\<close> only let time pass, which the clock readings already say.
\<close>

datatype event =
    LcdPrint string
  | PhaseEntered nat
  | SensorRead fl
  | SerialSample u16 fl fl fl
  | RelayWrite bool

datatype exit = Finished | Aborted | Pending

text \<open>Line 120: \<^verbatim>\<open>while (digitalRead(buttonInput));\<close>\<close>

fun wait_pressed :: "bool list \<Rightarrow> bool list option" where
  "wait_pressed [] = None"
| "wait_pressed (b # bs) = (if b then wait_pressed bs else Some bs)"

text \<open>Line 124: \<^verbatim>\<open>while (!digitalRead(buttonInput));\<close>\<close>

fun wait_released :: "bool list \<Rightarrow> bool list option" where
  "wait_released [] = None"
| "wait_released (b # bs) = (if \<not> b then wait_released bs else Some bs)"

text \<open>
  Lines 141 to 157, with the clock reading \<open>now\<close> of line 141: the sample, when it is
  due. The result is what was done, the new \<^verbatim>\<open>nextSampleTime\<close> and
  \<^verbatim>\<open>timeExpiredSincePhaseStart\<close>, and the thermocouple readings left; \<open>None\<close> when the
  sample is due and no reading is there.
\<close>

definition sample ::
  "Config \<Rightarrow> nat \<Rightarrow> u16 \<Rightarrow> u32 \<Rightarrow> u16 \<Rightarrow> u32 \<Rightarrow> fl list \<Rightarrow>
     (event list \<times> u32 \<times> u16 \<times> fl list) option" where
  "sample cfg heatingPhase offset nextSampleTime elapsed now cs =
     (if nextSampleTime \<le> now then
        (case cs of
           [] \<Rightarrow> None
         | c # cs' \<Rightarrow>
             let elapsed' = elapsed + 1;
                 g = gain (temperature cfg ! heatingPhase) offset (time cfg ! heatingPhase);
                 sp = setPoint g elapsed' offset
             in Some ([SensorRead c, SerialSample elapsed' c g sp, RelayWrite (flt c sp)],
                      nextSampleTime + 1000, elapsed', cs'))
      else Some ([], nextSampleTime, elapsed, cs))"

text \<open>
  Lines 140 to 166, the \<^verbatim>\<open>while (true)\<close> loop of one phase. Every iteration reads the
  clock twice (lines 141 and 158); it reads the button (line 161) only when the phase
  has not finished.
\<close>

fun phase_loop ::
  "Config \<Rightarrow> nat \<Rightarrow> u16 \<Rightarrow> u32 \<Rightarrow> u32 \<Rightarrow> u16 \<Rightarrow> u32 list \<Rightarrow> bool list \<Rightarrow> fl list \<Rightarrow>
     exit \<times> event list \<times> inputs" where
  "phase_loop cfg ph offset fin nxt elapsed [] bs cs = (Pending, [], ([], bs, cs))"
| "phase_loop cfg ph offset fin nxt elapsed (m1 # ms) bs cs =
     (case sample cfg ph offset nxt elapsed m1 cs of
        None \<Rightarrow> (Pending, [], (ms, bs, cs))
      | Some (evs, nxt', elapsed', cs') \<Rightarrow>
          (case ms of
             [] \<Rightarrow> (Pending, evs, ([], bs, cs'))
           | m2 # ms' \<Rightarrow>
               if fin \<le> m2 then (Finished, evs, (ms', bs, cs'))
               else
                 (case bs of
                    [] \<Rightarrow> (Pending, evs, (ms', [], cs'))
                  | b # bs' \<Rightarrow>
                      if \<not> b then (Aborted, evs @ [LcdPrint ''Aborted''], (ms', bs', cs'))
                      else
                        (case phase_loop cfg ph offset fin nxt' elapsed' ms' bs' cs' of
                           (x, evs', rest) \<Rightarrow> (x, evs @ evs', rest)))))"

text \<open>Lines 129 to 166: the body of the \<^verbatim>\<open>for\<close> loop for one phase.\<close>

fun run_phase :: "Config \<Rightarrow> nat \<Rightarrow> inputs \<Rightarrow> exit \<times> event list \<times> inputs" where
  "run_phase cfg ph (m1 # m2 # ms, bs, cs) =
     (case phase_loop cfg ph (temperatureOffset cfg ph)
             (finishHeatingPhaseTime m2 (time cfg ! ph)) (firstSampleTime m1) 0 ms bs cs of
        (x, evs, rest) \<Rightarrow> (x, PhaseEntered ph # evs, rest))"
| "run_phase cfg ph (ms, bs, cs) = (Pending, [PhaseEntered ph], ([], bs, cs))"

text \<open>
  Line 128, the \<^verbatim>\<open>for\<close> loop over the phases still to run. Both \<^verbatim>\<open>break\<close> statements
  leave the \<^verbatim>\<open>while\<close> loop only, after which \<^verbatim>\<open>heatingPhase++\<close> runs.
\<close>

fun run_phases :: "Config \<Rightarrow> nat list \<Rightarrow> inputs \<Rightarrow> bool \<times> event list \<times> inputs" where
  "run_phases cfg [] w = (True, [], w)"
| "run_phases cfg (ph # phs) w =
     (case run_phase cfg ph w of
        (Pending, evs, rest) \<Rightarrow> (False, evs, rest)
      | (x, evs, rest) \<Rightarrow>
          (case run_phases cfg phs rest of
             (r, evs', rest') \<Rightarrow> (r, evs @ evs', rest')))"

text \<open>
  \<^verbatim>\<open>loop()\<close>, lines 118 to 169. The first component says whether the function has
  returned.
\<close>

definition loop :: "Config \<Rightarrow> inputs \<Rightarrow> bool \<times> event list \<times> inputs" where
  "loop cfg w =
     (case w of (ms, bs, cs) \<Rightarrow>
        (case wait_pressed bs of
           None \<Rightarrow> (False, [], (ms, [], cs))
         | Some bs1 \<Rightarrow>
             (case wait_released bs1 of
                None \<Rightarrow> (False, [LcdPrint ''Start''], (ms, [], cs))
              | Some bs2 \<Rightarrow>
                  (case run_phases cfg [0 ..< unat (number_of_entries cfg)] (ms, bs2, cs) of
                     (False, evs, rest) \<Rightarrow> (False, LcdPrint ''Start'' # evs, rest)
                   | (True, evs, rest) \<Rightarrow>
                       (True, LcdPrint ''Start'' # evs @ [RelayWrite False], rest)))))"

section \<open>Loading the configuration\<close>

text \<open>
  \<^verbatim>\<open>loadConfiguration\<close>, lines 76 to 86. The two lists are the arrays \<^verbatim>\<open>doc["Time"]\<close> and
  \<^verbatim>\<open>doc["Temperature"]\<close> of the parsed file, each element as the JSON library converts
  it to \<^verbatim>\<open>uint16_t\<close>; a file that does not parse gives two empty lists. The counter
  \<^verbatim>\<open>i\<close> stays below \<^verbatim>\<open>MAX_ENTIES\<close>, so it never wraps.
\<close>

function load_entries :: "u16 list \<Rightarrow> u16 list \<Rightarrow> nat \<Rightarrow> Config \<Rightarrow> Config" where
  "load_entries tm tp i cfg =
     (if i < MAX_ENTIES \<and> i < length tm \<and> i < length tp then
        load_entries tm tp (Suc i)
          (cfg\<lparr>time := (time cfg)[i := tm ! i],
               temperature := (temperature cfg)[i := tp ! i],
               number_of_entries := number_of_entries cfg + 1\<rparr>)
      else cfg)"
  by pat_completeness auto
termination
  by (relation "measure (\<lambda>(tm, tp, i, cfg). MAX_ENTIES - i)") auto

declare load_entries.simps [simp del]

definition loadConfiguration :: "u16 list \<Rightarrow> u16 list \<Rightarrow> Config \<Rightarrow> Config" where
  "loadConfiguration tm tp cfg = load_entries tm tp 0 (cfg\<lparr>number_of_entries := 0\<rparr>)"

section \<open>Reading a trace\<close>

fun relay_writes :: "event list \<Rightarrow> bool list" where
  "relay_writes [] = []"
| "relay_writes (RelayWrite b # es) = b # relay_writes es"
| "relay_writes (_ # es) = relay_writes es"

fun sensor_reads :: "event list \<Rightarrow> fl list" where
  "sensor_reads [] = []"
| "sensor_reads (SensorRead c # es) = c # sensor_reads es"
| "sensor_reads (_ # es) = sensor_reads es"

fun phases_entered :: "event list \<Rightarrow> nat list" where
  "phases_entered [] = []"
| "phases_entered (PhaseEntered i # es) = i # phases_entered es"
| "phases_entered (_ # es) = phases_entered es"

text \<open>
  A trace in which the relay is written only as the last step of a sample: a
  thermocouple read, the serial line that shows the same reading and the set point,
  then the relay set to HIGH exactly when the reading is below that set point.
\<close>

fun bang_bang :: "event list \<Rightarrow> bool" where
  "bang_bang [] = True"
| "bang_bang (SensorRead c # SerialSample t c' g sp # RelayWrite b # es) =
     (c' = c \<and> b = flt c sp \<and> bang_bang es)"
| "bang_bang (SensorRead c # es) = False"
| "bang_bang (SerialSample t c g sp # es) = False"
| "bang_bang (RelayWrite b # es) = False"
| "bang_bang (e # es) = bang_bang es"

text \<open>
  The start temperature of phase \<open>i\<close> in the words of the specification: the target
  of phase \<open>i - 1\<close> when \<open>i > 0\<close>, the ambient default 25 when \<open>i = 0\<close>.
\<close>

definition spec_start_temperature :: "Config \<Rightarrow> nat \<Rightarrow> u16" where
  "spec_start_temperature cfg i = (if 0 < i then temperature cfg ! (i - 1) else 25)"

text \<open>
  A record of consecutive phases \<open>i, i + 1, \<dots>\<close> run from the inputs \<open>w\<close>: each entry
  is how the body of the \<^verbatim>\<open>for\<close> loop left its phase (finished, aborted or not yet
  over), what it did, and the inputs it left; each phase starts on the inputs the one
  before has left, and every phase but the last of the record is over.
\<close>

fun phase_chain ::
  "Config \<Rightarrow> nat \<Rightarrow> inputs \<Rightarrow> (exit \<times> event list \<times> inputs) list \<Rightarrow> bool" where
  "phase_chain cfg i w [] = True"
| "phase_chain cfg i w ((x, evs, w') # later) =
     (run_phase cfg i w = (x, evs, w') \<and> (later \<noteq> [] \<longrightarrow> x \<noteq> Pending) \<and>
      phase_chain cfg (Suc i) w' later)"

section \<open>Profiles used as examples\<close>

text \<open>
  The profile of the end-to-end scenario: 10 seconds to 100 degrees, then 5 seconds
  down to 50 degrees.
\<close>

definition profile_heat_cool :: Config where
  "profile_heat_cool =
     \<lparr>time = [10, 5, 0, 0, 0, 0, 0, 0, 0, 0],
      temperature = [100, 50, 0, 0, 0, 0, 0, 0, 0, 0],
      number_of_entries = 2\<rparr>"

text \<open>One phase of one second, to 100 degrees.\<close>

definition profile_one_second :: Config where
  "profile_one_second =
     \<lparr>time = [1, 0, 0, 0, 0, 0, 0, 0, 0, 0],
      temperature = [100, 0, 0, 0, 0, 0, 0, 0, 0, 0],
      number_of_entries = 1\<rparr>"

text \<open>Two heating phases of 10 seconds each, to 100 and then to 200 degrees.\<close>

definition profile_two_heat :: Config where
  "profile_two_heat =
     \<lparr>time = [10, 10, 0, 0, 0, 0, 0, 0, 0, 0],
      temperature = [100, 200, 0, 0, 0, 0, 0, 0, 0, 0],
      number_of_entries = 2\<rparr>"

section \<open>Properties\<close>

subsection \<open>Word arithmetic of the deadline\<close>

lemma unat_phaseMillis: "unat (phaseMillis d) = (unat d * 1000) mod 65536"
  by (simp add: phaseMillis_def unat_word_ariths)

lemma unat_ucast_u16_u32: "unat (ucast (w :: u16) :: u32) = unat w"
proof -
  have "unat w < 2 ^ 16" using unsigned_less [of w] by simp
  then have "unat w < 2 ^ 32" by simp
  then show ?thesis by (simp add: unsigned_ucast_eq take_bit_nat_eq_self)
qed

lemma scheduled_length:
  "unat (finishHeatingPhaseTime now d - now) = (unat d * 1000) mod 65536"
  by (simp add: finishHeatingPhaseTime_def unat_ucast_u16_u32 unat_phaseMillis)

text \<open>
  C10. The deadline of a phase is the clock reading plus the 16-bit product
  \<open>duration * 1000\<close>, that is plus \<open>(duration * 1000) mod 2 ^ 16\<close>: the scheduled
  length of the phase in milliseconds is that remainder, and for a duration above 65
  seconds it differs from \<open>duration * 1000\<close>.
\<close>

theorem finishHeatingPhaseTime_wraps:
  "unat (finishHeatingPhaseTime now d) = (unat now + (unat d * 1000) mod 2 ^ 16) mod 2 ^ 32 \<and>
   unat (finishHeatingPhaseTime now d - now) = (unat d * 1000) mod 2 ^ 16 \<and>
   (65 < unat d \<longrightarrow> unat (finishHeatingPhaseTime now d - now) \<noteq> unat d * 1000)"
proof (intro conjI impI)
  show "unat (finishHeatingPhaseTime now d) = (unat now + (unat d * 1000) mod 2 ^ 16) mod 2 ^ 32"
    by (simp add: finishHeatingPhaseTime_def unat_word_ariths unat_ucast_u16_u32 unat_phaseMillis)
  show "unat (finishHeatingPhaseTime now d - now) = (unat d * 1000) mod 2 ^ 16"
    by (simp add: scheduled_length)
  assume "65 < unat d"
  then have "65536 \<le> unat d * 1000" by simp
  moreover have "(unat d * 1000) mod 65536 < 65536" by simp
  ultimately show "unat (finishHeatingPhaseTime now d - now) \<noteq> unat d * 1000"
    by (simp add: scheduled_length)
qed

theorem finishHeatingPhaseTime_wraps_witness:
  "65 < unat (66 :: u16) \<and> unat (finishHeatingPhaseTime 5000 66) = 5464 \<and>
   unat (finishHeatingPhaseTime 5000 66 - 5000) = 464 \<and>
   unat (finishHeatingPhaseTime 5000 66 - 5000) \<noteq> 66000"
  using finishHeatingPhaseTime_wraps [of 5000 66] by simp

subsection \<open>The interpolated set point\<close>

text \<open>
  C3. A phase that ramps down from 100 to 50 degrees in 5 seconds: the set point
  starts at 100, and after 5 seconds it is 65586, not 50. It has gone up, not down:
  the difference \<open>50 - 100\<close> is taken modulo \<open>2 ^ 16\<close>, which makes the gain
  \<open>65486 / 5\<close>, rounded to \<open>13411533 / 1024\<close>.
\<close>

theorem setpoint_ramp_down:
  "setpoint_of 100 50 5 0 = Fin 100 \<and>
   gain 50 100 5 = Fin (13411533 / 1024) \<and>
   setpoint_of 100 50 5 5 = Fin 65586 \<and>
   setpoint_of 100 50 5 5 \<noteq> fl_of_u16 50 \<and>
   flt (setpoint_of 100 50 5 0) (setpoint_of 100 50 5 5)"
  by code_simp

text \<open>
  The rounding at work: a third, two ties that go to the even neighbour, the largest
  finite value and the overflow just above it, and the smallest values.
\<close>

lemma round_f32_examples:
  "round_f32 (1 / 3) = Fin (11184811 / 33554432)"
  "round_f32 16777217 = Fin 16777216"
  "round_f32 16777219 = Fin 16777220"
  "round_f32 (2 ^ 128 - 2 ^ 104) = Fin (2 ^ 128 - 2 ^ 104)"
  "round_f32 (2 ^ 128 - 2 ^ 103) = PInf"
  "round_f32 (1 / 2 ^ 149) = Fin (1 / 2 ^ 149)"
  "round_f32 (1 / 2 ^ 150) = Fin 0"
  "round_f32 (- (3 / 2 ^ 150)) = Fin (- (1 / 2 ^ 148))"
  by code_simp+

text \<open>
  The rounding shows on a ramp that goes up as well: from 25 to 253 degrees in 7
  seconds, the set point after 7 seconds is one unit in the last place above 253.
\<close>

lemma setpoint_ramp_up_rounded:
  "gain 253 25 7 = Fin (8538405 / 262144) \<and>
   setpoint_of 25 253 7 7 = Fin (16580609 / 65536)"
  by code_simp

subsection \<open>Traces of the phase loop\<close>

lemma relay_writes_append: "relay_writes (xs @ ys) = relay_writes xs @ relay_writes ys"
  by (induction xs rule: relay_writes.induct) simp_all

lemma phases_entered_append: "phases_entered (xs @ ys) = phases_entered xs @ phases_entered ys"
  by (induction xs rule: phases_entered.induct) simp_all

lemma sensor_reads_append: "sensor_reads (xs @ ys) = sensor_reads xs @ sensor_reads ys"
  by (induction xs rule: sensor_reads.induct) simp_all

lemma bang_bang_append: "bang_bang xs \<Longrightarrow> bang_bang ys \<Longrightarrow> bang_bang (xs @ ys)"
  by (induction xs rule: bang_bang.induct) simp_all

lemma sample_cases:
  assumes "sample cfg ph off nxt t now cs = Some (evs, nxt', t', cs')"
  shows "(evs = [] \<and> nxt' = nxt \<and> t' = t \<and> cs' = cs \<and> \<not> nxt \<le> now) \<or>
         (\<exists>c. cs = c # cs' \<and> nxt \<le> now \<and> nxt' = nxt + 1000 \<and> t' = t + 1 \<and>
           evs = [SensorRead c,
                  SerialSample (t + 1) c (gain (temperature cfg ! ph) off (time cfg ! ph))
                    (setPoint (gain (temperature cfg ! ph) off (time cfg ! ph)) (t + 1) off),
                  RelayWrite (flt c (setPoint (gain (temperature cfg ! ph) off (time cfg ! ph)) (t + 1) off))])"
  using assms by (auto simp: sample_def Let_def split: if_splits list.splits)


lemma phase_loop_events:
  assumes run: "phase_loop cfg ph off fin nxt t ms bs cs = (x, evs, rest)"
    and nil: "P []"
    and app: "\<And>xs ys. P xs \<Longrightarrow> P ys \<Longrightarrow> P (xs @ ys)"
    and abort: "P [LcdPrint ''Aborted'']"
    and smp: "\<And>c k. P [SensorRead c,
        SerialSample k c (gain (temperature cfg ! ph) off (time cfg ! ph))
          (setPoint (gain (temperature cfg ! ph) off (time cfg ! ph)) k off),
        RelayWrite (flt c (setPoint (gain (temperature cfg ! ph) off (time cfg ! ph)) k off))]"
  shows "P evs"
  using run smp
proof (induction cfg ph off fin nxt t ms bs cs arbitrary: x evs rest rule: phase_loop.induct)
  case (1 cfg ph offset fin nxt elapsed bs cs)
  then show ?case using nil by simp
next
  case (2 cfg ph offset fin nxt elapsed m1 ms bs cs)
  note run = "2.prems"(1) and smp = "2.prems"(2)
  show ?case
  proof (cases "sample cfg ph offset nxt elapsed m1 cs")
    case None
    with run show ?thesis using nil by simp
  next
    case (Some r)
    obtain evs0 nxt' t' cs' where r: "r = (evs0, nxt', t', cs')" by (cases r) auto
    have p0: "P evs0"
      using sample_cases [OF Some [unfolded r]] nil smp by auto
    show ?thesis
    proof (cases ms)
      case Nil
      with run Some r p0 show ?thesis by simp
    next
      case (Cons m2 ms')
      show ?thesis
      proof (cases "fin \<le> m2")
        case True
        with run Some r Cons p0 show ?thesis by simp
      next
        case notfin: False
        show ?thesis
        proof (cases bs)
          case Nil
          with run Some r Cons notfin p0 show ?thesis by simp
        next
          case bs: (Cons b bs')
          show ?thesis
          proof (cases b)
            case False
            with run Some r Cons notfin bs have "evs = evs0 @ [LcdPrint ''Aborted'']" by simp
            then show ?thesis using app [OF p0 abort] by simp
          next
            case True
            obtain x1 evs1 rest1 where
              rec: "phase_loop cfg ph offset fin nxt' t' ms' bs' cs' = (x1, evs1, rest1)"
              by (metis prod_cases3)
            have p1: "P evs1"
              using "2.IH" [OF Some r [symmetric] refl refl Cons notfin bs _ rec smp] True
              by simp
            from run Some r Cons notfin bs True rec have "evs = evs0 @ evs1" by simp
            then show ?thesis using app [OF p0 p1] by simp
          qed
        qed
      qed
    qed
  qed
qed

lemma phase_loop_bang_bang:
  "phase_loop cfg ph off fin nxt t ms bs cs = (x, evs, rest) \<Longrightarrow> bang_bang evs"
  by (erule phase_loop_events [where P = bang_bang]) (simp_all add: bang_bang_append)

lemma phase_loop_phases_entered:
  "phase_loop cfg ph off fin nxt t ms bs cs = (x, evs, rest) \<Longrightarrow> phases_entered evs = []"
  by (erule phase_loop_events [where P = "\<lambda>es. phases_entered es = []"])
     (simp_all add: phases_entered_append)

lemma run_phase_cases:
  assumes "run_phase cfg ph (ms, bs, cs) = (x, evs, rest)"
  shows "(\<exists>m1 m2 ms' evs'. ms = m1 # m2 # ms' \<and> evs = PhaseEntered ph # evs' \<and>
            phase_loop cfg ph (temperatureOffset cfg ph)
              (finishHeatingPhaseTime m2 (time cfg ! ph)) (firstSampleTime m1) 0 ms' bs cs
              = (x, evs', rest)) \<or>
         (length ms < 2 \<and> x = Pending \<and> evs = [PhaseEntered ph])"
proof (cases ms)
  case Nil
  with assms show ?thesis by auto
next
  case (Cons m1 ms1)
  show ?thesis
  proof (cases ms1)
    case Nil
    with Cons assms show ?thesis by auto
  next
    case c2: (Cons m2 ms')
    with Cons assms show ?thesis by (auto split: prod.splits)
  qed
qed

lemma run_phase_phases_entered:
  assumes "run_phase cfg ph w = (x, evs, rest)"
  shows "phases_entered evs = [ph]"
proof -
  obtain ms bs cs where w: "w = (ms, bs, cs)" by (cases w) auto
  from run_phase_cases [OF assms [unfolded w]] show ?thesis
    by (auto dest: phase_loop_phases_entered)
qed

lemma phase_chain_entered:
  "phase_chain cfg i w runs \<Longrightarrow>
     phases_entered (concat (map (fst \<circ> snd) runs)) = [i ..< i + length runs]"
proof (induction runs arbitrary: i w)
  case Nil
  then show ?case by simp
next
  case (Cons a runs)
  obtain x e0 w0 where a: "a = (x, e0, w0)" by (cases a) auto
  from Cons.prems a have rp: "run_phase cfg i w = (x, e0, w0)"
    and ch: "phase_chain cfg (Suc i) w0 runs" by simp_all
  have e0: "phases_entered e0 = [i]" using rp by (rule run_phase_phases_entered)
  have rest: "phases_entered (concat (map (fst \<circ> snd) runs)) = [Suc i ..< Suc i + length runs]"
    using ch by (rule Cons.IH)
  have "i < Suc i + length runs" by simp
  then have up: "[i ..< Suc i + length runs] = i # [Suc i ..< Suc i + length runs]"
    by (rule upt_conv_Cons)
  have "phases_entered (concat (map (fst \<circ> snd) (a # runs))) =
          phases_entered e0 @ phases_entered (concat (map (fst \<circ> snd) runs))"
    using a by (simp add: phases_entered_append)
  also have "\<dots> = i # [Suc i ..< Suc i + length runs]" by (simp only: e0 rest append.simps)
  also have "\<dots> = [i ..< Suc i + length runs]" by (simp only: up)
  also have "Suc i + length runs = i + length (a # runs)" by simp
  finally show ?case .
qed

lemma run_phases_chain:
  "run_phases cfg [i ..< n] w = (r, evs, rest) \<Longrightarrow>
     \<exists>runs. phase_chain cfg i w runs \<and> length runs \<le> n - i \<and>
       evs = concat (map (fst \<circ> snd) runs) \<and>
       (r \<longleftrightarrow> length runs = n - i \<and> (\<forall>t \<in> set runs. fst t \<noteq> Pending)) \<and>
       (\<not> r \<longrightarrow> runs \<noteq> [] \<and> fst (last runs) = Pending)"
proof (induction "n - i" arbitrary: i w r evs rest)
  case 0
  then have "[i ..< n] = []" by simp
  with "0.prems" have "r" "evs = []" by simp_all
  then show ?case using 0(1) by (intro exI [of _ "[]"]) simp
next
  case (Suc d)
  then have lt: "i < n" and d: "d = n - Suc i" by simp_all
  then have upt: "[i ..< n] = i # [Suc i ..< n]" by (simp add: upt_conv_Cons)
  obtain x e0 w0 where rp: "run_phase cfg i w = (x, e0, w0)" by (metis prod_cases3)
  show ?case
  proof (cases "x = Pending")
    case True
    with Suc.prems upt rp have "\<not> r" "evs = e0" by simp_all
    then show ?thesis using rp True lt
      by (intro exI [of _ "[(x, e0, w0)]"]) simp
  next
    case False
    obtain r1 e1 rest1 where rec: "run_phases cfg [Suc i ..< n] w0 = (r1, e1, rest1)"
      by (metis prod_cases3)
    from False Suc.prems upt rp rec have eq: "r = r1" "evs = e0 @ e1"
      by (cases x; simp)+
    from Suc.hyps(1) [OF d rec] obtain runs where
      ch: "phase_chain cfg (Suc i) w0 runs" and len: "length runs \<le> n - Suc i"
      and e1: "e1 = concat (map (fst \<circ> snd) runs)"
      and r1: "r1 \<longleftrightarrow> length runs = n - Suc i \<and> (\<forall>t \<in> set runs. fst t \<noteq> Pending)"
      and nr: "\<not> r1 \<longrightarrow> runs \<noteq> [] \<and> fst (last runs) = Pending"
      by blast
    let ?runs = "(x, e0, w0) # runs"
    have "phase_chain cfg i w ?runs" using rp False ch by simp
    moreover have "length ?runs \<le> n - i" using len lt by simp
    moreover have "evs = concat (map (fst \<circ> snd) ?runs)" using eq e1 by simp
    moreover have "r \<longleftrightarrow> length ?runs = n - i \<and> (\<forall>t \<in> set ?runs. fst t \<noteq> Pending)"
      using eq r1 False lt by auto
    moreover have "\<not> r \<longrightarrow> ?runs \<noteq> [] \<and> fst (last ?runs) = Pending"
      using eq nr by auto
    ultimately show ?thesis by blast
  qed
qed

lemma loop_triggered:
  assumes "wait_pressed bs = Some bs1" and "wait_released bs1 = Some bs2"
    and "run_phases cfg [0 ..< unat (number_of_entries cfg)] (ms, bs2, cs) = (r, evs, rest)"
  shows "loop cfg (ms, bs, cs) =
           (r, LcdPrint ''Start'' # evs @ (if r then [RelayWrite False] else []), rest)"
  using assms by (cases r) (simp_all add: loop_def)

subsection \<open>Some runs, evaluated\<close>

lemmas run_simps = loop_def sample_def temperatureOffset_def finishHeatingPhaseTime_def
  phaseMillis_def firstSampleTime_def upt_conv_Cons

text \<open>
  One phase of one second: the button is pressed and released, the clock reads 0 at
  both lines of the phase entry and 1000 at both lines of the only iteration.
\<close>

lemma run_one_second:
  "loop profile_one_second ([0, 0, 1000, 1000], [False, True], [Fin 20]) =
     (True,
      [LcdPrint ''Start'', PhaseEntered 0,
       SensorRead (Fin 20), SerialSample 1 (Fin 20) (Fin 75) (Fin 100), RelayWrite True,
       RelayWrite False],
      ([], [], []))"
  by code_simp

text \<open>
  Two phases. The button is read LOW once in phase 0, at 10 ms, and HIGH again from
  201 ms on. Phase 1 is entered at 200 ms and samples at 1200 ms and at 10200 ms.
\<close>

lemma run_abort_in_phase_0:
  "loop profile_two_heat
     ([0, 0, 10, 10, 200, 200, 201, 201, 1200, 1200, 10200, 10200],
      [False, True, False, True, True],
      [Fin 20, Fin 30]) =
     (True,
      [LcdPrint ''Start'', PhaseEntered 0, LcdPrint ''Aborted'', PhaseEntered 1,
       SensorRead (Fin 20), SerialSample 1 (Fin 20) (Fin 10) (Fin 110), RelayWrite True,
       SensorRead (Fin 30), SerialSample 2 (Fin 30) (Fin 10) (Fin 120), RelayWrite True,
       RelayWrite False],
      ([], [], []))"
  by code_simp

lemma run_phase_1_first_sample:
  "run_phase profile_two_heat 1 ([200, 200, 1200, 1200], [True], [Fin 20]) =
     (Pending,
      [PhaseEntered 1,
       SensorRead (Fin 20), SerialSample 1 (Fin 20) (Fin 10) (Fin 110), RelayWrite True],
      ([], [], []))"
  by code_simp

lemma phase_1_values:
  "spec_start_temperature profile_two_heat 1 = 100 \<and>
   gain 200 100 10 = Fin 10 \<and> setpoint_of 100 200 10 1 = Fin 110"
  by code_simp

lemma last_iteration_one_second:
  "phase_loop profile_one_second 0 25 1000 1000 0 [1000, 1000] [] [Fin 20] =
     (Finished,
      [SensorRead (Fin 20), SerialSample 1 (Fin 20) (Fin 75) (Fin 100), RelayWrite True],
      ([], [], []))"
  by code_simp

text \<open>
  Phase 1 of the end-to-end profile ramps down from 100 to 50 degrees. At its first
  sample the oven is at 120 degrees, above both: the set point is above 13197 and the
  relay is set to HIGH.
\<close>

lemma run_phase_ramp_down:
  "run_phase profile_heat_cool 1 ([0, 0, 1000, 1000], [True], [Fin 120]) =
     (Pending,
      [PhaseEntered 1,
       SensorRead (Fin 120),
       SerialSample 1 (Fin 120) (Fin (13411533 / 1024)) (Fin (13513933 / 1024)),
       RelayWrite True],
      ([], [], []))"
  by code_simp

subsection \<open>The relay at the end of a run\<close>

text \<open>
  C1. Whenever \<^verbatim>\<open>loop()\<close> returns, whether its phases finished or were aborted, the
  last write to the relay pin is LOW, and it is the last thing the run does: no run
  ends with the heating element on.
\<close>

theorem relay_off_at_return:
  assumes "loop cfg w = (True, evs, rest)"
  shows "relay_writes evs \<noteq> [] \<and> last (relay_writes evs) = False \<and> last evs = RelayWrite False"
proof -
  obtain ms bs cs where w: "w = (ms, bs, cs)" by (cases w) auto
  from assms w obtain evs1 where "evs = LcdPrint ''Start'' # evs1 @ [RelayWrite False]"
    by (auto simp: loop_def split: option.splits prod.splits bool.splits)
  then show ?thesis by (simp add: relay_writes_append)
qed

theorem relay_off_at_return_witness:
  "loop profile_one_second ([0, 0, 1000, 1000], [False, True], [Fin 20]) =
     (True,
      [LcdPrint ''Start'', PhaseEntered 0,
       SensorRead (Fin 20), SerialSample 1 (Fin 20) (Fin 75) (Fin 100), RelayWrite True,
       RelayWrite False],
      ([], [], [])) \<and>
   relay_writes
     [LcdPrint ''Start'', PhaseEntered 0,
      SensorRead (Fin 20), SerialSample 1 (Fin 20) (Fin 75) (Fin 100), RelayWrite True,
      RelayWrite False] = [True, False] \<and>
   last (relay_writes
     [LcdPrint ''Start'', PhaseEntered 0,
      SensorRead (Fin 20), SerialSample 1 (Fin 20) (Fin 75) (Fin 100), RelayWrite True,
      RelayWrite False]) = False"
  using relay_off_at_return [OF run_one_second] run_one_second by simp

subsection \<open>Abort\<close>

text \<open>
  C2. A run of two phases in which the button is read LOW once during phase 0. The
  display shows \<^verbatim>\<open>Aborted\<close>, and the run goes on: phase 1 is entered, the
  thermocouple is read twice more and the relay is set to HIGH twice, before the run
  ends.
\<close>

theorem abort_leaves_the_phase_only:
  "loop profile_two_heat
     ([0, 0, 10, 10, 200, 200, 201, 201, 1200, 1200, 10200, 10200],
      [False, True, False, True, True],
      [Fin 20, Fin 30]) =
     (True,
      [LcdPrint ''Start'', PhaseEntered 0, LcdPrint ''Aborted'', PhaseEntered 1,
       SensorRead (Fin 20), SerialSample 1 (Fin 20) (Fin 10) (Fin 110), RelayWrite True,
       SensorRead (Fin 30), SerialSample 2 (Fin 30) (Fin 10) (Fin 120), RelayWrite True,
       RelayWrite False],
      ([], [], []))"
  by (rule run_abort_in_phase_0)

subsection \<open>The order of the phases\<close>

text \<open>
  C9. The phases entered in a run are \<open>0, 1, \<dots>, k - 1\<close> in this order, for some
  \<open>k\<close> up to the number of entries \<open>N\<close>: none is skipped and none is entered twice,
  and when \<^verbatim>\<open>loop()\<close> has returned they are all of \<open>0, \<dots>, N - 1\<close>. Once the run is
  triggered, what it does is the text \<^verbatim>\<open>Start\<close> and then what these phases do, one
  after the other, each on the inputs the one before has left: phase 0 is entered as
  soon as \<open>N\<close> is at least 1, and every phase that is over, finished or aborted, is
  followed by the phase of the next index, as long as there is one.
\<close>

theorem phases_in_index_order:
  assumes "loop cfg (ms, bs, cs) = (r, evs, rest)"
  shows "\<exists>runs.
           length runs \<le> unat (number_of_entries cfg) \<and>
           phases_entered evs = [0 ..< length runs] \<and>
           (r \<longrightarrow> length runs = unat (number_of_entries cfg)) \<and>
           (\<forall>bs1 bs2. wait_pressed bs = Some bs1 \<and> wait_released bs1 = Some bs2 \<longrightarrow>
              phase_chain cfg 0 (ms, bs2, cs) runs \<and>
              evs = LcdPrint ''Start'' # concat (map (fst \<circ> snd) runs) @
                      (if r then [RelayWrite False] else []) \<and>
              (0 < unat (number_of_entries cfg) \<longrightarrow> runs \<noteq> []) \<and>
              (\<forall>i. i < length runs \<and> fst (runs ! i) \<noteq> Pending \<and>
                     Suc i < unat (number_of_entries cfg) \<longrightarrow> Suc i < length runs))"
proof -
  let ?N = "unat (number_of_entries cfg)"
  show ?thesis
  proof (cases "wait_pressed bs")
    case None
    with assms have "evs = []" "\<not> r" by (simp_all add: loop_def)
    then show ?thesis using None by (intro exI [of _ "[]"]) simp
  next
    case (Some bs1)
    show ?thesis
    proof (cases "wait_released bs1")
      case None
      with assms Some have "evs = [LcdPrint ''Start'']" "\<not> r" by (simp_all add: loop_def)
      then show ?thesis using Some None by (intro exI [of _ "[]"]) simp
    next
      case rel: (Some bs2)
      obtain r1 evs1 rest1 where
        rp: "run_phases cfg [0 ..< ?N] (ms, bs2, cs) = (r1, evs1, rest1)"
        by (metis prod_cases3)
      from loop_triggered [OF Some rel rp] assms
      have r: "r = r1"
        and evs: "evs = LcdPrint ''Start'' # evs1 @ (if r1 then [RelayWrite False] else [])"
        by simp_all
      from run_phases_chain [OF rp] obtain runs where
        ch: "phase_chain cfg 0 (ms, bs2, cs) runs" and len: "length runs \<le> ?N"
        and e1: "evs1 = concat (map (fst \<circ> snd) runs)"
        and r1: "r1 \<longleftrightarrow> length runs = ?N \<and> (\<forall>t \<in> set runs. fst t \<noteq> Pending)"
        and nr: "\<not> r1 \<longrightarrow> runs \<noteq> [] \<and> fst (last runs) = Pending"
        by auto
      have ent: "phases_entered evs = [0 ..< length runs]"
        using phase_chain_entered [OF ch] evs e1 by (simp add: phases_entered_append)
      have full: "r \<longrightarrow> length runs = ?N" using r r1 by simp
      have first: "0 < ?N \<longrightarrow> runs \<noteq> []" using r1 nr by (cases r1) auto
      have succ: "Suc i < length runs"
        if "i < length runs" "fst (runs ! i) \<noteq> Pending" "Suc i < ?N" for i
      proof (cases r1)
        case True
        with r1 that(3) show ?thesis by simp
      next
        case False
        with nr have ne: "runs \<noteq> []" and lp: "fst (last runs) = Pending" by simp_all
        have "last runs = runs ! (length runs - 1)" using ne by (rule last_conv_nth)
        with lp that(2) have "i \<noteq> length runs - 1" by auto
        with that(1) show ?thesis by simp
      qed
      have evs': "evs = LcdPrint ''Start'' # concat (map (fst \<circ> snd) runs) @
                    (if r then [RelayWrite False] else [])"
        using evs e1 r by simp
      show ?thesis
      proof (intro exI [of _ runs] conjI allI impI)
        fix bs1' bs2'
        assume "wait_pressed bs = Some bs1' \<and> wait_released bs1' = Some bs2'"
        with Some rel have "bs2' = bs2" by simp
        then show "phase_chain cfg 0 (ms, bs2', cs) runs" using ch by simp
      qed (use len ent full evs' first succ in auto)
    qed
  qed
qed

text \<open>
  The run of two phases with an abort in phase 0: its record has the two phases,
  the first aborted and the second finished.
\<close>

theorem phases_in_index_order_witness:
  "loop profile_two_heat
     ([0, 0, 10, 10, 200, 200, 201, 201, 1200, 1200, 10200, 10200],
      [False, True, False, True, True],
      [Fin 20, Fin 30]) =
     (True,
      [LcdPrint ''Start'', PhaseEntered 0, LcdPrint ''Aborted'', PhaseEntered 1,
       SensorRead (Fin 20), SerialSample 1 (Fin 20) (Fin 10) (Fin 110), RelayWrite True,
       SensorRead (Fin 30), SerialSample 2 (Fin 30) (Fin 10) (Fin 120), RelayWrite True,
       RelayWrite False],
      ([], [], [])) \<and>
   wait_pressed [False, True, False, True, True] = Some [True, False, True, True] \<and>
   wait_released [True, False, True, True] = Some [False, True, True] \<and>
   unat (number_of_entries profile_two_heat) = 2 \<and>
   (\<exists>runs.
      phase_chain profile_two_heat 0
        ([0, 0, 10, 10, 200, 200, 201, 201, 1200, 1200, 10200, 10200],
         [False, True, True], [Fin 20, Fin 30]) runs \<and>
      length runs = 2 \<and>
      [LcdPrint ''Start'', PhaseEntered 0, LcdPrint ''Aborted'', PhaseEntered 1,
       SensorRead (Fin 20), SerialSample 1 (Fin 20) (Fin 10) (Fin 110), RelayWrite True,
       SensorRead (Fin 30), SerialSample 2 (Fin 30) (Fin 10) (Fin 120), RelayWrite True,
       RelayWrite False] =
        LcdPrint ''Start'' # concat (map (fst \<circ> snd) runs) @ [RelayWrite False]) \<and>
   phases_entered
     [LcdPrint ''Start'', PhaseEntered 0, LcdPrint ''Aborted'', PhaseEntered 1,
      SensorRead (Fin 20), SerialSample 1 (Fin 20) (Fin 10) (Fin 110), RelayWrite True,
      SensorRead (Fin 30), SerialSample 2 (Fin 30) (Fin 10) (Fin 120), RelayWrite True,
      RelayWrite False] = [0 ..< 2]"
proof -
  let ?E = "[LcdPrint ''Start'', PhaseEntered 0, LcdPrint ''Aborted'', PhaseEntered 1,
       SensorRead (Fin 20), SerialSample 1 (Fin 20) (Fin 10) (Fin 110), RelayWrite True,
       SensorRead (Fin 30), SerialSample 2 (Fin 30) (Fin 10) (Fin 120), RelayWrite True,
       RelayWrite False]"
  have p: "wait_pressed [False, True, False, True, True] = Some [True, False, True, True]"
    by simp
  have q: "wait_released [True, False, True, True] = Some [False, True, True]" by simp
  have n: "unat (number_of_entries profile_two_heat) = 2" by (simp add: profile_two_heat_def)
  from phases_in_index_order [OF run_abort_in_phase_0] obtain runs where
    len: "True \<longrightarrow> length runs = unat (number_of_entries profile_two_heat)"
    and ent: "phases_entered ?E = [0 ..< length runs]"
    and trig: "\<forall>bs1 bs2. wait_pressed [False, True, False, True, True] = Some bs1 \<and>
        wait_released bs1 = Some bs2 \<longrightarrow>
        phase_chain profile_two_heat 0
          ([0, 0, 10, 10, 200, 200, 201, 201, 1200, 1200, 10200, 10200], bs2, [Fin 20, Fin 30])
          runs \<and>
        ?E = LcdPrint ''Start'' # concat (map (fst \<circ> snd) runs) @
               (if True then [RelayWrite False] else []) \<and>
        (0 < unat (number_of_entries profile_two_heat) \<longrightarrow> runs \<noteq> []) \<and>
        (\<forall>i. i < length runs \<and> fst (runs ! i) \<noteq> Pending \<and>
               Suc i < unat (number_of_entries profile_two_heat) \<longrightarrow> Suc i < length runs)"
    by blast
  from len n have l2: "length runs = 2" by simp
  from trig p q have
    "phase_chain profile_two_heat 0
       ([0, 0, 10, 10, 200, 200, 201, 201, 1200, 1200, 10200, 10200],
        [False, True, True], [Fin 20, Fin 30]) runs \<and>
     ?E = LcdPrint ''Start'' # concat (map (fst \<circ> snd) runs) @
            (if True then [RelayWrite False] else [])"
    by blast
  then have ex: "\<exists>runs.
      phase_chain profile_two_heat 0
        ([0, 0, 10, 10, 200, 200, 201, 201, 1200, 1200, 10200, 10200],
         [False, True, True], [Fin 20, Fin 30]) runs \<and>
      length runs = 2 \<and>
      ?E = LcdPrint ''Start'' # concat (map (fst \<circ> snd) runs) @ [RelayWrite False]"
    using l2 by (intro exI [of _ runs]) (simp only: if_True simp_thms)
  have "phases_entered ?E = [0 ..< 2]" using ent l2 by simp
  with run_abort_in_phase_0 p q n ex show ?thesis by blast
qed

subsection \<open>The start temperature of a phase\<close>

lemma temperatureOffset_spec: "temperatureOffset cfg i = spec_start_temperature cfg i"
  by (simp add: temperatureOffset_def spec_start_temperature_def)

lemma phase_loop_samples:
  assumes "phase_loop cfg ph off fin nxt t ms bs cs = (x, evs, rest)"
    and "SerialSample k c g sp \<in> set evs"
  shows "g = gain (temperature cfg ! ph) off (time cfg ! ph) \<and>
         sp = setPoint (gain (temperature cfg ! ph) off (time cfg ! ph)) k off"
proof -
  let ?G = "gain (temperature cfg ! ph) off (time cfg ! ph)"
  let ?P = "\<lambda>es. \<forall>k c g sp. SerialSample k c g sp \<in> set es \<longrightarrow>
              g = ?G \<and> sp = setPoint ?G k off"
  have "?P evs"
  proof (rule phase_loop_events [OF assms(1), where P = ?P])
    show "?P []" by simp
    show "?P (xs @ ys)" if "?P xs" and "?P ys" for xs ys
      using that by (simp only: set_append Un_iff) blast
    show "?P [LcdPrint ''Aborted'']" by simp
    show "?P [SensorRead c', SerialSample k' c' ?G (setPoint ?G k' off),
              RelayWrite (flt c' (setPoint ?G k' off))]" for c' k'
      by simp
  qed
  with assms(2) show ?thesis by blast
qed

text \<open>
  C6. Every sample of phase \<open>i\<close> computes its gain and its set point from the start
  temperature of the specification: the target of phase \<open>i - 1\<close> when \<open>i > 0\<close>, and
  25 when \<open>i = 0\<close>.
\<close>

theorem start_temperature_of_phase:
  assumes "run_phase cfg i w = (x, evs, rest)"
    and "SerialSample k c g sp \<in> set evs"
  shows "g = gain (temperature cfg ! i) (spec_start_temperature cfg i) (time cfg ! i) \<and>
         sp = setpoint_of (spec_start_temperature cfg i) (temperature cfg ! i) (time cfg ! i) k"
proof -
  obtain ms bs cs where w: "w = (ms, bs, cs)" by (cases w) auto
  from run_phase_cases [OF assms(1) [unfolded w]] assms(2)
  obtain m1 m2 ms' evs' where
    "phase_loop cfg i (temperatureOffset cfg i) (finishHeatingPhaseTime m2 (time cfg ! i))
       (firstSampleTime m1) 0 ms' bs cs = (x, evs', rest)"
    and "SerialSample k c g sp \<in> set evs'"
    by auto
  from phase_loop_samples [OF this] show ?thesis
    by (simp add: temperatureOffset_spec setpoint_of_def)
qed

theorem start_temperature_of_phase_witness:
  "run_phase profile_two_heat 1 ([200, 200, 1200, 1200], [True], [Fin 20]) =
     (Pending,
      [PhaseEntered 1,
       SensorRead (Fin 20), SerialSample 1 (Fin 20) (Fin 10) (Fin 110), RelayWrite True],
      ([], [], [])) \<and>
   spec_start_temperature profile_two_heat 1 = 100 \<and>
   Fin 10 = gain 200 100 10 \<and> Fin 110 = setpoint_of 100 200 10 1"
proof -
  have "SerialSample 1 (Fin 20) (Fin 10) (Fin 110) \<in>
          set [PhaseEntered 1,
               SensorRead (Fin 20), SerialSample 1 (Fin 20) (Fin 10) (Fin 110), RelayWrite True]"
    by simp
  from start_temperature_of_phase [OF run_phase_1_first_sample this] run_phase_1_first_sample
    phase_1_values
  show ?thesis by simp
qed

subsection \<open>The relay during a phase\<close>

text \<open>
  C7. In a phase the relay is written only at a sample, right after the thermocouple
  read and the set point computation of that sample, and it is set to HIGH exactly
  when that reading is strictly below that set point, to LOW otherwise. The value
  written depends on nothing else: not on the value written before, not on the time
  since the last change.
\<close>

theorem relay_follows_threshold:
  assumes "run_phase cfg i w = (x, evs, rest)"
  shows "bang_bang evs"
proof -
  obtain ms bs cs where w: "w = (ms, bs, cs)" by (cases w) auto
  from run_phase_cases [OF assms [unfolded w]] show ?thesis
    by (auto dest: phase_loop_bang_bang)
qed

theorem relay_follows_threshold_witness:
  "run_phase profile_two_heat 1 ([200, 200, 1200, 1200], [True], [Fin 20]) =
     (Pending,
      [PhaseEntered 1,
       SensorRead (Fin 20), SerialSample 1 (Fin 20) (Fin 10) (Fin 110), RelayWrite True],
      ([], [], [])) \<and>
   bang_bang
     [PhaseEntered 1,
      SensorRead (Fin 20), SerialSample 1 (Fin 20) (Fin 10) (Fin 110), RelayWrite True] \<and>
   flt (Fin 20) (Fin 110)"
  using relay_follows_threshold [OF run_phase_1_first_sample] run_phase_1_first_sample by simp

subsection \<open>The empty profile\<close>

text \<open>
  C5, as stated: with no phase at all, a run that is triggered still writes the relay
  once.
\<close>

theorem empty_profile_writes_relay:
  "loop config0 ([], [False, True], []) =
     (True, [LcdPrint ''Start'', RelayWrite False], ([], [], [])) \<and>
   relay_writes (fst (snd (loop config0 ([], [False, True], [])))) = [False]"
  by (simp add: run_simps config0_def)

text \<open>
  C5, amended. With a profile of zero phases, a run that is triggered (the button read
  LOW, then HIGH) returns at once: it enters no phase, it reads neither the clock nor
  the thermocouple, and it writes the relay exactly once, to LOW.
\<close>

theorem empty_profile_run:
  assumes "number_of_entries cfg = 0"
    and "wait_pressed bs = Some bs1"
    and "wait_released bs1 = Some bs2"
  shows "\<exists>evs. loop cfg (ms, bs, cs) = (True, evs, (ms, bs2, cs)) \<and>
           phases_entered evs = [] \<and> sensor_reads evs = [] \<and> relay_writes evs = [False]"
  using assms by (simp add: loop_def)

theorem empty_profile_run_witness:
  "number_of_entries config0 = 0 \<and>
   wait_pressed [True, False, False, True, True] = Some [False, True, True] \<and>
   wait_released [False, True, True] = Some [True] \<and>
   loop config0 ([5, 7], [True, False, False, True, True], [Fin 20]) =
     (True, [LcdPrint ''Start'', RelayWrite False], ([5, 7], [True], [Fin 20]))"
proof -
  have n: "number_of_entries config0 = 0" by (simp add: config0_def)
  have p: "wait_pressed [True, False, False, True, True] = Some [False, True, True]" by simp
  have r: "wait_released [False, True, True] = Some [True]" by simp
  from empty_profile_run [OF n p r, of "[5, 7]" "[Fin 20]"] n p r
  show ?thesis by (auto simp: loop_def)
qed

subsection \<open>Sampling and the end of a phase\<close>

text \<open>
  C8, as stated: a phase of one second. The clock reads 999 at line 141 and 1000 at
  line 158 of the same iteration: the sample is not due yet, the phase is over. The
  phase ends without any thermocouple read and without any relay write.
\<close>

theorem phase_ends_without_sample:
  "run_phase profile_one_second 0 ([0, 0, 500, 500, 999, 1000], [True, True], [Fin 20]) =
     (Finished, [PhaseEntered 0], ([], [True], [Fin 20])) \<and>
   unat (finishHeatingPhaseTime 0 (time profile_one_second ! 0)) = 1000"
  by (simp add: run_simps profile_one_second_def)

text \<open>
  C8, amended. In every iteration of the phase loop the sample comes before the
  termination check: when the clock reading of line 141 has reached the next sample
  time, the iteration reads the thermocouple, computes the set point and writes the
  relay first, and only then compares the clock reading of line 158 with the
  deadline; if the phase ends in this iteration, it ends after that sample.
\<close>

theorem sample_precedes_termination_check:
  assumes "nxt \<le> m1"
  shows "\<exists>x evs' rest.
           phase_loop cfg ph off fin nxt t (m1 # m2 # ms) bs (c # cs) =
             (x,
              SensorRead c #
              SerialSample (t + 1) c (gain (temperature cfg ! ph) off (time cfg ! ph))
                (setPoint (gain (temperature cfg ! ph) off (time cfg ! ph)) (t + 1) off) #
              RelayWrite
                (flt c (setPoint (gain (temperature cfg ! ph) off (time cfg ! ph)) (t + 1) off)) #
              evs',
              rest) \<and>
           (fin \<le> m2 \<longrightarrow> x = Finished \<and> evs' = [] \<and> rest = (ms, bs, cs))"
  using assms by (auto simp: sample_def Let_def split: list.splits prod.splits)

theorem sample_precedes_termination_check_witness:
  "(1000 :: u32) \<le> 1000 \<and>
   phase_loop profile_one_second 0 25 1000 1000 0 [1000, 1000] [] [Fin 20] =
     (Finished,
      [SensorRead (Fin 20), SerialSample 1 (Fin 20) (Fin 75) (Fin 100), RelayWrite True],
      ([], [], []))"
proof -
  have h: "(1000 :: u32) \<le> 1000" by simp
  note t = sample_precedes_termination_check
    [of 1000 1000 profile_one_second 0 25 1000 0 1000 "[]" "[]" "Fin 20" "[]", OF h]
  show ?thesis using t h last_iteration_one_second by blast
qed

subsection \<open>Profiles that a validation would reject\<close>

lemma load_entries_count:
  "unat (number_of_entries cfg) = i \<Longrightarrow>
   i \<le> min MAX_ENTIES (min (length tm) (length tp)) \<Longrightarrow>
   unat (number_of_entries (load_entries tm tp i cfg)) =
     min MAX_ENTIES (min (length tm) (length tp))"
proof (induction tm tp i cfg rule: load_entries.induct)
  case (1 tm tp i cfg)
  show ?case
  proof (cases "i < MAX_ENTIES \<and> i < length tm \<and> i < length tp")
    case True
    let ?cfg' = "cfg\<lparr>time := (time cfg)[i := tm ! i],
                      temperature := (temperature cfg)[i := tp ! i],
                      number_of_entries := number_of_entries cfg + 1\<rparr>"
    have "i < 10" using True by (simp add: MAX_ENTIES_def)
    then have "unat (number_of_entries cfg + 1) = Suc i"
      using "1.prems"(1) by (simp add: unat_word_ariths)
    then have n: "unat (number_of_entries ?cfg') = Suc i" by simp
    have le: "Suc i \<le> min MAX_ENTIES (min (length tm) (length tp))" using True by simp
    have "load_entries tm tp i cfg = load_entries tm tp (Suc i) ?cfg'"
      using True by (subst load_entries.simps) simp
    with "1.IH" [OF True n le] show ?thesis by simp
  next
    case False
    have "load_entries tm tp i cfg = cfg"
      by (subst load_entries.simps) (simp only: False if_False)
    moreover have "i = min MAX_ENTIES (min (length tm) (length tp))"
      using False "1.prems"(2) by auto
    ultimately show ?thesis using "1.prems"(1) by simp
  qed
qed

lemma load_entries_cells:
  "length (time cfg) = MAX_ENTIES \<Longrightarrow> length (temperature cfg) = MAX_ENTIES \<Longrightarrow>
   i \<le> j \<Longrightarrow> j < min MAX_ENTIES (min (length tm) (length tp)) \<Longrightarrow>
   time (load_entries tm tp i cfg) ! j = tm ! j \<and>
   temperature (load_entries tm tp i cfg) ! j = tp ! j"
proof (induction tm tp i cfg rule: load_entries.induct)
  case (1 tm tp i cfg)
  let ?cfg' = "cfg\<lparr>time := (time cfg)[i := tm ! i],
                    temperature := (temperature cfg)[i := tp ! i],
                    number_of_entries := number_of_entries cfg + 1\<rparr>"
  have cond: "i < MAX_ENTIES \<and> i < length tm \<and> i < length tp" using "1.prems" by simp
  have step: "load_entries tm tp i cfg = load_entries tm tp (Suc i) ?cfg'"
    using cond by (subst load_entries.simps) simp
  have len: "length (time ?cfg') = MAX_ENTIES" "length (temperature ?cfg') = MAX_ENTIES"
    using "1.prems" by simp_all
  show ?case
  proof (cases "i = j")
    case False
    then have "Suc i \<le> j" using "1.prems"(3) by simp
    from "1.IH" [OF cond len this "1.prems"(4)] step show ?thesis by simp
  next
    case True
    have kept: "time (load_entries tm' tp' k c) ! j = time c ! j \<and>
                temperature (load_entries tm' tp' k c) ! j = temperature c ! j"
      if "j < k" for tm' tp' k c
      using that
    proof (induction tm' tp' k c rule: load_entries.induct)
      case (1 tm' tp' k c)
      show ?case
      proof (cases "k < MAX_ENTIES \<and> k < length tm' \<and> k < length tp'")
        case True
        let ?c' = "c\<lparr>time := (time c)[k := tm' ! k],
                      temperature := (temperature c)[k := tp' ! k],
                      number_of_entries := number_of_entries c + 1\<rparr>"
        have st: "load_entries tm' tp' k c = load_entries tm' tp' (Suc k) ?c'"
          using True by (subst load_entries.simps) simp
        have "j < Suc k" using "1.prems" by simp
        from "1.IH" [OF True this] st "1.prems" show ?thesis by simp
      next
        case False
        have "load_entries tm' tp' k c = c"
          by (subst load_entries.simps) (simp only: False if_False)
        then show ?thesis by simp
      qed
    qed
    have "j < Suc i" using True by simp
    from kept [OF this, of tm tp ?cfg'] step True cond "1.prems"(1,2) show ?thesis
      by (simp add: MAX_ENTIES_def)
  qed
qed

lemma run_phases_first:
  assumes "run_phases cfg (ph # phs) w = (r, evs, rest)"
  shows "\<exists>evs'. evs = PhaseEntered ph # evs'"
proof -
  obtain ms bs cs where w: "w = (ms, bs, cs)" by (cases w) auto
  obtain x evs0 rest0 where rp: "run_phase cfg ph (ms, bs, cs) = (x, evs0, rest0)"
    by (metis prod_cases3)
  from run_phase_cases [OF rp] obtain evs1 where e0: "evs0 = PhaseEntered ph # evs1" by auto
  obtain r1 evs2 rest1 where rec: "run_phases cfg phs rest0 = (r1, evs2, rest1)"
    by (metis prod_cases3)
  from assms w rp rec e0 show ?thesis by (cases x) auto
qed

lemma load_entries_length:
  "length (time (load_entries tm tp i cfg)) = length (time cfg) \<and>
   length (temperature (load_entries tm tp i cfg)) = length (temperature cfg)"
proof (induction tm tp i cfg rule: load_entries.induct)
  case (1 tm tp i cfg)
  show ?case
  proof (cases "i < MAX_ENTIES \<and> i < length tm \<and> i < length tp")
    case True
    from "1.IH" [OF True] True show ?thesis
      by (subst (1 2) load_entries.simps) simp
  next
    case False
    have "load_entries tm tp i cfg = cfg"
      by (subst load_entries.simps) (simp only: False if_False)
    then show ?thesis by simp
  qed
qed

text \<open>
  Whatever the file holds, the loaded configuration stays inside its arrays: the
  reads \<^verbatim>\<open>config.time[heatingPhase]\<close>, \<^verbatim>\<open>config.temperature[heatingPhase]\<close> and
  \<^verbatim>\<open>config.temperature[heatingPhase - 1]\<close> of \<^verbatim>\<open>loop\<close> are all in range.
\<close>

lemma wf_loadConfiguration:
  assumes "length (time c0) = MAX_ENTIES" and "length (temperature c0) = MAX_ENTIES"
  shows "wf_config (loadConfiguration tm tp c0)"
proof -
  have "unat (number_of_entries (loadConfiguration tm tp c0)) =
          min MAX_ENTIES (min (length tm) (length tp))"
    unfolding loadConfiguration_def by (rule load_entries_count) simp_all
  then show ?thesis
    using assms load_entries_length [of tm tp 0 "c0\<lparr>number_of_entries := 0\<rparr>"]
    by (simp add: wf_config_def loadConfiguration_def)
qed

text \<open>
  C4, as stated: a profile whose only phase has duration zero. Nothing rejects it:
  the run is started and phase 0 is entered.
\<close>

theorem zero_duration_profile_runs:
  "time (loadConfiguration [0] [100] config0) ! 0 = 0 \<and>
   loop (loadConfiguration [0] [100] config0) ([0, 0, 0, 0], [False, True], []) =
     (True, [LcdPrint ''Start'', PhaseEntered 0, RelayWrite False], ([], [], []))"
  by (simp add: loadConfiguration_def load_entries.simps config0_def MAX_ENTIES_def run_simps)

text \<open>
  C4, amended. No profile is validated and no run is refused. The loader keeps the
  first \<open>min (10, #Time, #Temperature)\<close> entries of the file as they are, whatever the
  durations, and drops the rest without an error; a run that is triggered on a loaded
  profile with at least one entry enters phase 0.
\<close>

theorem unvalidated_profile_runs:
  assumes "length (time c0) = MAX_ENTIES" and "length (temperature c0) = MAX_ENTIES"
    and "tm \<noteq> []" and "tp \<noteq> []"
    and "wait_pressed bs = Some bs1" and "wait_released bs1 = Some bs2"
  shows "unat (number_of_entries (loadConfiguration tm tp c0)) =
           min MAX_ENTIES (min (length tm) (length tp)) \<and>
         (\<forall>i < unat (number_of_entries (loadConfiguration tm tp c0)).
            time (loadConfiguration tm tp c0) ! i = tm ! i \<and>
            temperature (loadConfiguration tm tp c0) ! i = tp ! i) \<and>
         (\<exists>r evs rest. loop (loadConfiguration tm tp c0) (ms, bs, cs) =
            (r, LcdPrint ''Start'' # PhaseEntered 0 # evs, rest))"
proof -
  let ?cfg = "loadConfiguration tm tp c0"
  let ?M = "min MAX_ENTIES (min (length tm) (length tp))"
  have n: "unat (number_of_entries ?cfg) = ?M"
    unfolding loadConfiguration_def by (rule load_entries_count) simp_all
  have cells: "time ?cfg ! i = tm ! i \<and> temperature ?cfg ! i = tp ! i" if "i < ?M" for i
    unfolding loadConfiguration_def
    using assms(1,2) that by (intro load_entries_cells) simp_all
  have "0 < ?M" using assms(3,4) by (simp add: MAX_ENTIES_def)
  then have upt: "[0 ..< unat (number_of_entries ?cfg)] = 0 # [1 ..< ?M]"
    using n by (simp add: upt_conv_Cons)
  obtain r evs rest where
    rp: "run_phases ?cfg [0 ..< unat (number_of_entries ?cfg)] (ms, bs2, cs) = (r, evs, rest)"
    by (metis prod_cases3)
  from run_phases_first [OF rp [unfolded upt]] obtain evs' where
    evs: "evs = PhaseEntered 0 # evs'" by blast
  have "loop ?cfg (ms, bs, cs) =
          (r, LcdPrint ''Start'' # PhaseEntered 0 # (evs' @ (if r then [RelayWrite False] else [])),
           rest)"
    using loop_triggered [OF assms(5,6) rp] evs by simp
  then have "\<exists>r evs rest. loop ?cfg (ms, bs, cs) =
               (r, LcdPrint ''Start'' # PhaseEntered 0 # evs, rest)"
    by blast
  with n cells show ?thesis by simp
qed

theorem unvalidated_profile_runs_witness:
  "length (time config0) = MAX_ENTIES \<and> length (temperature config0) = MAX_ENTIES \<and>
   wait_pressed [False, True] = Some [True] \<and> wait_released [True] = Some [] \<and>
   unat (number_of_entries (loadConfiguration [0, 7] [100] config0)) = 1 \<and>
   time (loadConfiguration [0, 7] [100] config0) ! 0 = 0 \<and>
   temperature (loadConfiguration [0, 7] [100] config0) ! 0 = 100 \<and>
   loop (loadConfiguration [0, 7] [100] config0) ([0, 0, 0, 0], [False, True], []) =
     (True, [LcdPrint ''Start'', PhaseEntered 0, RelayWrite False], ([], [], []))"
proof -
  have l: "length (time config0) = MAX_ENTIES" "length (temperature config0) = MAX_ENTIES"
    by (simp_all add: config0_def)
  have b: "wait_pressed [False, True] = Some [True]" "wait_released [True] = Some []"
    by simp_all
  have ne: "[0, 7 :: u16] \<noteq> []" "[100 :: u16] \<noteq> []" by simp_all
  have run: "loop (loadConfiguration [0, 7] [100] config0) ([0, 0, 0, 0], [False, True], []) =
     (True, [LcdPrint ''Start'', PhaseEntered 0, RelayWrite False], ([], [], []))"
    by (simp add: loadConfiguration_def load_entries.simps config0_def MAX_ENTIES_def run_simps)
  from unvalidated_profile_runs [OF l ne b, of "[0, 0, 0, 0]" "[]"] l b run
  show ?thesis by (simp add: MAX_ENTIES_def)
qed

end
